theory Spec2Isabelle
  imports Main "HOL-Library.Sublist"
begin

section \<open>NoteKeep: the in-memory store and the authentication routes\<close>

text \<open>
  A shallow embedding of \<^verbatim>\<open>server/storage.ts\<close> (class \<^verbatim>\<open>MemStorage\<close>), of the route
  handlers set up by \<^verbatim>\<open>registerRoutes\<close> and of the request schemas of
  \<^verbatim>\<open>shared/schema.ts\<close>.

  Conventions of the embedding:
  \<^item> A JavaScript \<^verbatim>\<open>Map\<close> keeps its entries in insertion order, and
    \<^verbatim>\<open>Array.from(m.values())\<close> lists them in that order; a map is therefore an
    association list, \<^verbatim>\<open>set\<close> on a present key replacing the value in place and
    on an absent key appending.
  \<^item> A \<^verbatim>\<open>Date\<close> is its \<^verbatim>\<open>getTime()\<close>, an integer number of milliseconds.
  \<^item> A string is a list of \<^typ>\<open>char\<close>, each read as one code unit in the range
    U+0000 .. U+00FF.
  \<^item> What the code draws from its environment is an argument of the model:
    \<^verbatim>\<open>randomUUID()\<close>, \<^verbatim>\<open>new Date()\<close>, \<^verbatim>\<open>crypto.randomBytes(32)\<close>, the salt of
    \<^verbatim>\<open>bcrypt.hash\<close>. The bcrypt library itself is a pair of functions passed in.
  \<^item> The session of a request is the optional user identifier it carries; saving it
    is taken to succeed.
\<close>

subsection \<open>Strings\<close>

text \<open>The code units matched by \<^verbatim>\<open>\s\<close> below U+0100: TAB, LF, VT, FF, CR, SP, NBSP.\<close>

definition is_space :: "char \<Rightarrow> bool" where
  "is_space c = (let n = (of_char c :: nat) in (9 \<le> n \<and> n \<le> 13) \<or> n = 32 \<or> n = 160)"

text \<open>
  \<^verbatim>\<open>s.split(/\s+/)\<close>: the pieces between maximal runs of white space, the empty piece
  before a leading run and after a trailing run included. The flag tells whether the
  previous code unit was white space.
\<close>

fun split_ws_from :: "bool \<Rightarrow> string \<Rightarrow> string list" where
  "split_ws_from insep [] = [[]]"
| "split_ws_from insep (c # cs) =
     (if is_space c then
        (if insep then split_ws_from True cs else [] # split_ws_from True cs)
      else
        (case split_ws_from False cs of
           [] \<Rightarrow> [[c]]
         | t # ts \<Rightarrow> (c # t) # ts))"

definition split_ws :: "string \<Rightarrow> string list" where
  "split_ws s = split_ws_from False s"

text \<open>\<^verbatim>\<open>n.toString()\<close> for a non-negative integer: its decimal digits.\<close>

definition digit_char :: "nat \<Rightarrow> char" where
  "digit_char d = char_of (48 + d)"

fun toString :: "nat \<Rightarrow> string" where
  "toString n = (if n < 10 then [digit_char n] else toString (n div 10) @ [digit_char (n mod 10)])"

declare toString.simps [simp del]

text \<open>\<^verbatim>\<open>content.split(/\s+/).filter(word => word.length > 0).length\<close>\<close>

definition word_count :: "string \<Rightarrow> nat" where
  "word_count content = length (filter (\<lambda>word. length word > 0) (split_ws content))"

text \<open>
  \<^verbatim>\<open>toLowerCase\<close> on code units below U+0100: A..Z and the letters U+00C0 .. U+00DE
  (the multiplication sign U+00D7 apart) move up by 32.
\<close>

definition lower_char :: "char \<Rightarrow> char" where
  "lower_char c =
     (let n = (of_char c :: nat) in
      if (65 \<le> n \<and> n \<le> 90) \<or> (192 \<le> n \<and> n \<le> 222 \<and> n \<noteq> 215)
      then char_of (n + 32) else c)"

definition toLowerCase :: "string \<Rightarrow> string" where
  "toLowerCase s = map lower_char s"

text \<open>\<^verbatim>\<open>s.includes(q)\<close>: does \<open>q\<close> start at some position of \<open>s\<close>?\<close>

fun starts_with :: "string \<Rightarrow> string \<Rightarrow> bool" where
  "starts_with s [] = True"
| "starts_with [] (q # qs) = False"
| "starts_with (c # cs) (q # qs) = (c = q \<and> starts_with cs qs)"

fun str_includes :: "string \<Rightarrow> string \<Rightarrow> bool" where
  "str_includes [] q = starts_with [] q"
| "str_includes (c # cs) q = (starts_with (c # cs) q \<or> str_includes cs q)"

subsection \<open>JavaScript maps\<close>

type_synonym ('k, 'v) jsmap = "('k \<times> 'v) list"

definition map_get :: "('k, 'v) jsmap \<Rightarrow> 'k \<Rightarrow> 'v option" where
  "map_get m k = map_of m k"

fun map_set :: "('k, 'v) jsmap \<Rightarrow> 'k \<Rightarrow> 'v \<Rightarrow> ('k, 'v) jsmap" where
  "map_set [] k v = [(k, v)]"
| "map_set ((k', v') # m) k v =
     (if k' = k then (k, v) # m else (k', v') # map_set m k v)"

definition map_delete :: "('k, 'v) jsmap \<Rightarrow> 'k \<Rightarrow> ('k, 'v) jsmap" where
  "map_delete m k = filter (\<lambda>e. fst e \<noteq> k) m"

definition map_values :: "('k, 'v) jsmap \<Rightarrow> 'v list" where
  "map_values m = map snd m"

text \<open>\<^verbatim>\<open>xs.find(p)\<close>: the first element satisfying \<open>p\<close>, or \<^verbatim>\<open>undefined\<close>.\<close>

fun array_find :: "('a \<Rightarrow> bool) \<Rightarrow> 'a list \<Rightarrow> 'a option" where
  "array_find p [] = None"
| "array_find p (x # xs) = (if p x then Some x else array_find p xs)"

text \<open>
  \<^verbatim>\<open>xs.sort(cmp)\<close>: a stable sort; \<open>a\<close> is placed before \<open>b\<close> when
  \<open>cmp a b\<close> is negative, and equal elements keep their order.
\<close>

fun insert_by :: "('a \<Rightarrow> 'a \<Rightarrow> int) \<Rightarrow> 'a \<Rightarrow> 'a list \<Rightarrow> 'a list" where
  "insert_by cmp x [] = [x]"
| "insert_by cmp x (y # ys) =
     (if cmp x y \<le> 0 then x # y # ys else y # insert_by cmp x ys)"

definition array_sort :: "('a \<Rightarrow> 'a \<Rightarrow> int) \<Rightarrow> 'a list \<Rightarrow> 'a list" where
  "array_sort cmp xs = foldr (insert_by cmp) xs []"

subsection \<open>The data model (\<^verbatim>\<open>shared/schema.ts\<close>)\<close>

record User =
  user_id :: string
  user_username :: string
  user_password :: string
  user_recoveryKey :: string
  user_encryptionKey :: string
  user_createdAt :: int

record Folder =
  folder_id :: string
  folder_name :: string
  folder_emoji :: "string option"
  folder_parentId :: "string option"
  folder_userId :: string
  folder_createdAt :: int

record Note =
  note_id :: string
  note_title :: string
  note_content :: string
  note_encryptedContent :: "string option"
  note_isPinned :: bool
  note_folderId :: "string option"
  note_userId :: string
  note_tags :: "string list"
  note_wordCount :: string
  note_createdAt :: int
  note_updatedAt :: int

text \<open>
  \<^verbatim>\<open>InsertFolder\<close>, \<^verbatim>\<open>InsertNote\<close> and \<^verbatim>\<open>Partial<UpdateNote>\<close>. An optional field is
  \<open>None\<close> when it is \<^verbatim>\<open>undefined\<close>; a nullable optional field is \<open>Some None\<close> when
  it is \<^verbatim>\<open>null\<close>.
\<close>

record insert_folder =
  if_name :: string
  if_emoji :: "string option option"
  if_parentId :: "string option option"

record insert_note =
  in_title :: string
  in_content :: string
  in_folderId :: "string option option"
  in_tags :: "string list option"
  in_isPinned :: "bool option"

record update_note =
  un_title :: "string option"
  un_content :: "string option"
  un_folderId :: "string option option"
  un_tags :: "string list option"
  un_isPinned :: "bool option"

text \<open>
  \<^verbatim>\<open>x || null\<close> on an optional nullable string: \<^verbatim>\<open>undefined\<close>, \<^verbatim>\<open>null\<close> and the empty
  string are falsy.
\<close>

fun or_null :: "string option option \<Rightarrow> string option" where
  "or_null None = None"
| "or_null (Some None) = None"
| "or_null (Some (Some x)) = (if x = [] then None else Some x)"

subsection \<open>The store (\<^verbatim>\<open>MemStorage\<close>)\<close>

record store =
  users :: "(string, User) jsmap"
  folders :: "(string, Folder) jsmap"
  "notes" :: "(string, Note) jsmap"

definition empty_store :: store where
  "empty_store = \<lparr>users = [], folders = [], notes = []\<rparr>"

definition getUser :: "store \<Rightarrow> string \<Rightarrow> User option" where
  "getUser s uid = map_get (users s) uid"

definition getUserByUsername :: "store \<Rightarrow> string \<Rightarrow> User option" where
  "getUserByUsername s name =
     array_find (\<lambda>u. user_username u = name) (map_values (users s))"

definition createUser ::
  "store \<Rightarrow> string \<Rightarrow> int \<Rightarrow> string \<Rightarrow> string \<Rightarrow> string \<Rightarrow> string \<Rightarrow> User \<times> store" where
  "createUser s uuid now name pw rk ek =
     (let u = \<lparr>user_id = uuid, user_username = name, user_password = pw,
                user_recoveryKey = rk, user_encryptionKey = ek, user_createdAt = now\<rparr>
      in (u, s\<lparr>users := map_set (users s) uuid u\<rparr>))"

definition updateUserPassword :: "store \<Rightarrow> string \<Rightarrow> string \<Rightarrow> store" where
  "updateUserPassword s uid pw =
     (case map_get (users s) uid of
        Some u \<Rightarrow> s\<lparr>users := map_set (users s) uid (u\<lparr>user_password := pw\<rparr>)\<rparr>
      | None \<Rightarrow> s)"

definition getFoldersByUserId :: "store \<Rightarrow> string \<Rightarrow> Folder list" where
  "getFoldersByUserId s uid =
     filter (\<lambda>f. folder_userId f = uid) (map_values (folders s))"

definition getFolder :: "store \<Rightarrow> string \<Rightarrow> Folder option" where
  "getFolder s fid = map_get (folders s) fid"

definition createFolder ::
  "store \<Rightarrow> string \<Rightarrow> int \<Rightarrow> insert_folder \<Rightarrow> string \<Rightarrow> Folder \<times> store" where
  "createFolder s uuid now ins uid =
     (let f = \<lparr>folder_id = uuid, folder_name = if_name ins,
                folder_emoji = or_null (if_emoji ins),
                folder_parentId = or_null (if_parentId ins),
                folder_userId = uid, folder_createdAt = now\<rparr>
      in (f, s\<lparr>folders := map_set (folders s) uuid f\<rparr>))"

text \<open>
  \<^verbatim>\<open>deleteFolder\<close> deletes the folder's key, collects the notes whose \<^verbatim>\<open>folderId\<close> is the
  identifier, and deletes the key \<^verbatim>\<open>note.id\<close> of each.
\<close>

definition deleteFolder :: "store \<Rightarrow> string \<Rightarrow> store" where
  "deleteFolder s fid =
     (let fs = map_delete (folders s) fid;
          notesToDelete = filter (\<lambda>n. note_folderId n = Some fid) (map_values (notes s))
      in s\<lparr>folders := fs,
            notes := foldl (\<lambda>m n. map_delete m (note_id n)) (notes s) notesToDelete\<rparr>)"

definition byUpdatedAtDesc :: "Note \<Rightarrow> Note \<Rightarrow> int" where
  "byUpdatedAtDesc a b = note_updatedAt b - note_updatedAt a"

definition getNotesByUserId :: "store \<Rightarrow> string \<Rightarrow> Note list" where
  "getNotesByUserId s uid =
     array_sort byUpdatedAtDesc
       (filter (\<lambda>n. note_userId n = uid) (map_values (notes s)))"

definition getNotesByFolderId :: "store \<Rightarrow> string \<Rightarrow> Note list" where
  "getNotesByFolderId s fid =
     array_sort byUpdatedAtDesc
       (filter (\<lambda>n. note_folderId n = Some fid) (map_values (notes s)))"

definition getPinnedNotes :: "store \<Rightarrow> string \<Rightarrow> Note list" where
  "getPinnedNotes s uid =
     array_sort byUpdatedAtDesc
       (filter (\<lambda>n. note_userId n = uid \<and> note_isPinned n) (map_values (notes s)))"

definition note_matches :: "string \<Rightarrow> Note \<Rightarrow> bool" where
  "note_matches lowercaseQuery n =
     (str_includes (toLowerCase (note_title n)) lowercaseQuery \<or>
      str_includes (toLowerCase (note_content n)) lowercaseQuery \<or>
      list_ex (\<lambda>tag. str_includes (toLowerCase tag) lowercaseQuery) (note_tags n))"

definition searchNotes :: "store \<Rightarrow> string \<Rightarrow> string \<Rightarrow> Note list" where
  "searchNotes s uid query =
     (let lowercaseQuery = toLowerCase query
      in array_sort byUpdatedAtDesc
           (filter (\<lambda>n. note_userId n = uid \<and> note_matches lowercaseQuery n)
              (map_values (notes s))))"

definition getNote :: "store \<Rightarrow> string \<Rightarrow> Note option" where
  "getNote s nid = map_get (notes s) nid"

definition createNote ::
  "store \<Rightarrow> string \<Rightarrow> int \<Rightarrow> insert_note \<Rightarrow> string \<Rightarrow> Note \<times> store" where
  "createNote s uuid now ins uid =
     (let wordCount = toString (word_count (in_content ins));
          n = \<lparr>note_id = uuid, note_title = in_title ins, note_content = in_content ins,
                note_encryptedContent = None,
                note_isPinned = (case in_isPinned ins of Some b \<Rightarrow> b | None \<Rightarrow> False),
                note_folderId = or_null (in_folderId ins),
                note_userId = uid,
                note_tags = (case in_tags ins of Some ts \<Rightarrow> ts | None \<Rightarrow> []),
                note_wordCount = wordCount,
                note_createdAt = now, note_updatedAt = now\<rparr>
      in (n, s\<lparr>notes := map_set (notes s) uuid n\<rparr>))"

text \<open>
  In \<^verbatim>\<open>updateNote\<close> the word count is guarded by the truthiness of
  \<^verbatim>\<open>update.content\<close> (absent and empty are both falsy), every other field by
  \<^verbatim>\<open>!== undefined\<close>.
\<close>

definition updateNote ::
  "store \<Rightarrow> int \<Rightarrow> string \<Rightarrow> update_note \<Rightarrow> Note option \<times> store" where
  "updateNote s now nid update =
     (case map_get (notes s) nid of
        Some n \<Rightarrow>
          (let wordCount =
                 (case un_content update of
                    Some c \<Rightarrow> if c \<noteq> [] then toString (word_count c) else note_wordCount n
                  | None \<Rightarrow> note_wordCount n);
               updated = n\<lparr>
                 note_title := (case un_title update of Some t \<Rightarrow> t | None \<Rightarrow> note_title n),
                 note_content := (case un_content update of Some c \<Rightarrow> c | None \<Rightarrow> note_content n),
                 note_tags := (case un_tags update of Some ts \<Rightarrow> ts | None \<Rightarrow> note_tags n),
                 note_isPinned :=
                   (case un_isPinned update of Some b \<Rightarrow> b | None \<Rightarrow> note_isPinned n),
                 note_folderId :=
                   (case un_folderId update of Some f \<Rightarrow> f | None \<Rightarrow> note_folderId n),
                 note_wordCount := wordCount,
                 note_updatedAt := now\<rparr>
           in (Some updated, s\<lparr>notes := map_set (notes s) nid updated\<rparr>))
      | None \<Rightarrow> (None, s))"

definition deleteNote :: "store \<Rightarrow> string \<Rightarrow> store" where
  "deleteNote s nid = s\<lparr>notes := map_delete (notes s) nid\<rparr>"

subsection \<open>The routes (\<^verbatim>\<open>registerRoutes\<close>)\<close>

text \<open>
  The outcomes the handlers report: \<open>ValidationError\<close> is a 400 from a failed schema
  parse, \<open>DuplicateUsername\<close> the 400 "Username already exists",
  \<open>InvalidCredentials\<close> the 401 "Invalid credentials", \<open>InvalidRecovery\<close> the 401
  "Invalid recovery credentials", \<open>Unauthenticated\<close> the 401 of \<^verbatim>\<open>requireAuth\<close>,
  \<open>NotFound\<close> a 404.
\<close>

datatype error =
  ValidationError | DuplicateUsername | InvalidCredentials | InvalidRecovery
  | Unauthenticated | NotFound

text \<open>
  The bcrypt library: \<^verbatim>\<open>hash(data, 10)\<close> draws a salt, here its first argument;
  \<^verbatim>\<open>compare(data, encrypted)\<close>.
\<close>

record bcrypt =
  bcrypt_hash :: "string \<Rightarrow> string \<Rightarrow> string"
  bcrypt_compare :: "string \<Rightarrow> string \<Rightarrow> bool"

record user_summary =
  us_id :: string
  us_username :: string

definition summary_of :: "User \<Rightarrow> user_summary" where
  "summary_of u = \<lparr>us_id = user_id u, us_username = user_username u\<rparr>"

text \<open>
  \<^verbatim>\<open>insertUserSchema\<close> asks for two strings and nothing more, so it accepts every
  typed pair; \<^verbatim>\<open>loginSchema\<close> and \<^verbatim>\<open>recoverySchema\<close> add minimal lengths.
\<close>

definition loginSchema :: "string \<Rightarrow> string \<Rightarrow> bool" where
  "loginSchema username password = (length username \<ge> 1 \<and> length password \<ge> 1)"

definition recoverySchema :: "string \<Rightarrow> string \<Rightarrow> string \<Rightarrow> bool" where
  "recoverySchema username recoveryKey newPassword =
     (length username \<ge> 1 \<and> length recoveryKey \<ge> 1 \<and> length newPassword \<ge> 6)"

type_synonym session = "string option"

text \<open>JavaScript truthiness of an optional string: \<^verbatim>\<open>undefined\<close> and \<^verbatim>\<open>""\<close> are falsy.\<close>

definition truthy :: "string option \<Rightarrow> bool" where
  "truthy x = (case x of None \<Rightarrow> False | Some v \<Rightarrow> v \<noteq> [])"

text \<open>\<^verbatim>\<open>POST /api/register\<close>\<close>

definition register ::
  "bcrypt \<Rightarrow> store \<Rightarrow> session \<Rightarrow> string \<Rightarrow> int \<Rightarrow> string \<Rightarrow> string \<Rightarrow> string \<Rightarrow>
   string \<Rightarrow> string \<Rightarrow> (error + user_summary \<times> string \<times> string) \<times> store \<times> session" where
  "register bc s sess uuid now recoveryKey encryptionKey salt username password =
     (case getUserByUsername s username of
        Some existingUser \<Rightarrow> (Inl DuplicateUsername, s, sess)
      | None \<Rightarrow>
          (let hashedPassword = bcrypt_hash bc salt password;
               (u, s') = createUser s uuid now username hashedPassword recoveryKey encryptionKey
           in (Inr (summary_of u, recoveryKey, encryptionKey), s', Some (user_id u))))"

text \<open>\<^verbatim>\<open>POST /api/login\<close>\<close>

definition login ::
  "bcrypt \<Rightarrow> store \<Rightarrow> session \<Rightarrow> string \<Rightarrow> string \<Rightarrow>
   (error + user_summary \<times> string) \<times> store \<times> session" where
  "login bc s sess username password =
     (if \<not> loginSchema username password then (Inl ValidationError, s, sess)
      else
        (case getUserByUsername s username of
           None \<Rightarrow> (Inl InvalidCredentials, s, sess)
         | Some u \<Rightarrow>
             if \<not> bcrypt_compare bc password (user_password u)
             then (Inl InvalidCredentials, s, sess)
             else (Inr (summary_of u, user_encryptionKey u), s, Some (user_id u))))"

text \<open>\<^verbatim>\<open>POST /api/recover\<close>\<close>

definition recover ::
  "bcrypt \<Rightarrow> store \<Rightarrow> session \<Rightarrow> string \<Rightarrow> string \<Rightarrow> string \<Rightarrow> string \<Rightarrow>
   (error + user_summary \<times> string) \<times> store \<times> session" where
  "recover bc s sess salt username recoveryKey newPassword =
     (if \<not> recoverySchema username recoveryKey newPassword then (Inl ValidationError, s, sess)
      else
        (case getUserByUsername s username of
           None \<Rightarrow> (Inl InvalidRecovery, s, sess)
         | Some u \<Rightarrow>
             if user_recoveryKey u \<noteq> recoveryKey then (Inl InvalidRecovery, s, sess)
             else
               (let hashedPassword = bcrypt_hash bc salt newPassword;
                    s' = updateUserPassword s (user_id u) hashedPassword
                in (Inr (summary_of u, user_encryptionKey u), s', Some (user_id u)))))"

text \<open>\<^verbatim>\<open>GET /api/notes\<close>, behind \<^verbatim>\<open>requireAuth\<close>\<close>

record notes_query =
  q_folderId :: "string option"
  q_search :: "string option"
  q_pinned :: "string option"

definition get_notes :: "store \<Rightarrow> session \<Rightarrow> notes_query \<Rightarrow> error + Note list" where
  "get_notes s sess q =
     (if \<not> truthy sess then Inl Unauthenticated
      else
        (let userId = the sess in
         if truthy (q_search q) then Inr (searchNotes s userId (the (q_search q)))
         else if q_pinned q = Some ''true'' then Inr (getPinnedNotes s userId)
         else if truthy (q_folderId q) then Inr (getNotesByFolderId s (the (q_folderId q)))
         else Inr (getNotesByUserId s userId)))"

text \<open>
  \<^verbatim>\<open>POST /api/notes\<close> and \<^verbatim>\<open>PUT /api/notes/:id\<close>: the folder selection \<^verbatim>\<open>"none"\<close> is
  replaced by \<^verbatim>\<open>undefined\<close> before the store is called.
\<close>

definition post_note ::
  "store \<Rightarrow> session \<Rightarrow> string \<Rightarrow> int \<Rightarrow> insert_note \<Rightarrow> (error + Note) \<times> store" where
  "post_note s sess uuid now body =
     (if \<not> truthy sess then (Inl Unauthenticated, s)
      else
        (let noteData =
               (if in_folderId body = Some (Some ''none'')
                then body\<lparr>in_folderId := None\<rparr> else body);
             (n, s') = createNote s uuid now noteData (the sess)
         in (Inr n, s')))"

definition put_note ::
  "store \<Rightarrow> session \<Rightarrow> int \<Rightarrow> string \<Rightarrow> update_note \<Rightarrow> (error + Note) \<times> store" where
  "put_note s sess now nid body =
     (if \<not> truthy sess then (Inl Unauthenticated, s)
      else
        (let noteData =
               (if un_folderId body = Some (Some ''none'')
                then body\<lparr>un_folderId := None\<rparr> else body)
         in case updateNote s now nid noteData of
              (None, s') \<Rightarrow> (Inl NotFound, s')
            | (Some n, s') \<Rightarrow> (Inr n, s')))"

text \<open>\<^verbatim>\<open>DELETE /api/folders/:id\<close> and \<^verbatim>\<open>DELETE /api/notes/:id\<close> always answer success.\<close>

definition delete_folder :: "store \<Rightarrow> session \<Rightarrow> string \<Rightarrow> (error + unit) \<times> store" where
  "delete_folder s sess fid =
     (if \<not> truthy sess then (Inl Unauthenticated, s) else (Inr (), deleteFolder s fid))"

definition delete_note :: "store \<Rightarrow> session \<Rightarrow> string \<Rightarrow> (error + unit) \<times> store" where
  "delete_note s sess nid =
     (if \<not> truthy sess then (Inl Unauthenticated, s) else (Inr (), deleteNote s nid))"

subsection \<open>Invariant of the store and vocabulary of the statements\<close>

text \<open>
  A JavaScript \<^verbatim>\<open>Map\<close> holds each key once, and every record is stored under its own
  \<^verbatim>\<open>id\<close>. Both facts hold of the empty store and are kept by every operation
  (lemmas \<open>wf_empty_store\<close> to \<open>wf_deleteNote\<close> below).
\<close>

definition keyed_by :: "('v \<Rightarrow> 'k) \<Rightarrow> ('k, 'v) jsmap \<Rightarrow> bool" where
  "keyed_by idf m = (distinct (map fst m) \<and> list_all (\<lambda>e. idf (snd e) = fst e) m)"

definition wf_store :: "store \<Rightarrow> bool" where
  "wf_store s =
     (keyed_by user_id (users s) \<and> keyed_by folder_id (folders s) \<and> keyed_by note_id (notes s))"

text \<open>A list of notes ordered by last-modified time, most recent first.\<close>

definition sorted_desc :: "Note list \<Rightarrow> bool" where
  "sorted_desc ns = sorted_wrt (\<lambda>a b. note_updatedAt a \<ge> note_updatedAt b) ns"

subsection \<open>Example data\<close>

text \<open>
  A stand-in for the bcrypt library, used only to run the handlers on concrete inputs:
  the hash is the salt followed by the data, and a comparison checks that the
  encrypted string ends with the data.
\<close>

definition stub_hash :: "string \<Rightarrow> string \<Rightarrow> string" where
  "stub_hash salt data = salt @ data"

definition stub_compare :: "string \<Rightarrow> string \<Rightarrow> bool" where
  "stub_compare data encrypted =
     (length data \<le> length encrypted \<and>
      drop (length encrypted - length data) encrypted = data)"

definition stub_bcrypt :: bcrypt where
  "stub_bcrypt = \<lparr>bcrypt_hash = stub_hash, bcrypt_compare = stub_compare\<rparr>"

definition work_folder :: insert_folder where
  "work_folder = \<lparr>if_name = ''Work'', if_emoji = None, if_parentId = None\<rparr>"

definition sub_folder :: insert_folder where
  "sub_folder = \<lparr>if_name = ''Sub'', if_emoji = Some None, if_parentId = Some (Some ''f1'')\<rparr>"

definition alice_note :: insert_note where
  "alice_note = \<lparr>in_title = ''Alpha Plan'', in_content = ''hello world'',
     in_folderId = Some (Some ''f1''), in_tags = Some [''alpha-2''], in_isPinned = None\<rparr>"

definition beta_note :: insert_note where
  "beta_note = \<lparr>in_title = ''Beta'', in_content = ''second  note here'',
     in_folderId = Some (Some ''f2''), in_tags = None, in_isPinned = Some True\<rparr>"

definition bob_note :: insert_note where
  "bob_note = \<lparr>in_title = ''Bob'', in_content = ''other'',
     in_folderId = None, in_tags = Some [], in_isPinned = None\<rparr>"

text \<open>
  Two folders of user \<open>alice\<close> (\<open>f2\<close> a child of \<open>f1\<close>), her notes \<open>n1\<close> in \<open>f1\<close>
  and \<open>n2\<close> in \<open>f2\<close>, and a note \<open>n3\<close> of user \<open>bob\<close> outside any folder.
\<close>

definition demo_store :: store where
  "demo_store =
     (let s1 = snd (createFolder empty_store ''f1'' 10 work_folder ''alice'');
          s2 = snd (createFolder s1 ''f2'' 20 sub_folder ''alice'');
          s3 = snd (createNote s2 ''n1'' 1000 alice_note ''alice'');
          s4 = snd (createNote s3 ''n2'' 2000 beta_note ''alice'')
      in snd (createNote s4 ''n3'' 3000 bob_note ''bob''))"

text \<open>The record that \<open>createNote\<close> stores for \<open>alice_note\<close>.\<close>

definition alice_n1 :: Note where
  "alice_n1 = \<lparr>note_id = ''n1'', note_title = ''Alpha Plan'', note_content = ''hello world'',
     note_encryptedContent = None, note_isPinned = False, note_folderId = Some ''f1'',
     note_userId = ''alice'', note_tags = [''alpha-2''], note_wordCount = ''2'',
     note_createdAt = 1000, note_updatedAt = 1000\<rparr>"

text \<open>A store whose only note names a folder that was never created.\<close>

definition dangling_store :: store where
  "dangling_store = snd (createNote empty_store ''n1'' 1000 alice_note ''alice'')"

text \<open>A store with one registered user, and that user's record.\<close>

definition user_store :: store where
  "user_store =
     fst (snd (register stub_bcrypt empty_store None ''u1'' 5 ''rk'' ''ek'' ''salt''
       ''alice'' ''secret1''))"

definition alice_user :: User where
  "alice_user = \<lparr>user_id = ''u1'', user_username = ''alice'', user_password = ''saltsecret1'',
     user_recoveryKey = ''rk'', user_encryptionKey = ''ek'', user_createdAt = 5\<rparr>"

text \<open>Request payloads used in the examples.\<close>

definition clear_content :: update_note where
  "clear_content = \<lparr>un_title = None, un_content = Some [], un_folderId = None,
     un_tags = None, un_isPinned = None\<rparr>"

definition retag :: update_note where
  "retag = \<lparr>un_title = None, un_content = None, un_folderId = None,
     un_tags = Some [''x''], un_isPinned = None\<rparr>"

definition unfile :: update_note where
  "unfile = \<lparr>un_title = None, un_content = None, un_folderId = Some (Some ''none''),
     un_tags = None, un_isPinned = None\<rparr>"

definition by_folder_f1 :: notes_query where
  "by_folder_f1 = \<lparr>q_folderId = Some ''f1'', q_search = None, q_pinned = None\<rparr>"

section \<open>Properties\<close>

subsection \<open>Maps\<close>

lemma map_get_map_set: "map_get (map_set m k v) k' = (if k' = k then Some v else map_get m k')"
  by (induction m) (auto simp: map_get_def)

lemma keys_map_set: "fst ` set (map_set m k v) = insert k (fst ` set m)"
  by (induction m k v rule: map_set.induct) (auto split: if_splits)

lemma distinct_map_set: "distinct (map fst m) \<Longrightarrow> distinct (map fst (map_set m k v))"
  by (induction m k v rule: map_set.induct) (auto simp: keys_map_set)

lemma set_map_set_subset: "set (map_set m k v) \<subseteq> insert (k, v) (set m)"
  by (induction m k v rule: map_set.induct) (auto split: if_splits)

lemma map_set_mem: "(k, v) \<in> set (map_set m k v)"
  by (induction m k v rule: map_set.induct) auto

lemma map_set_cases:
  "distinct (map fst m) \<Longrightarrow> e \<in> set (map_set m k v) \<Longrightarrow> e = (k, v) \<or> (e \<in> set m \<and> fst e \<noteq> k)"
  by (induction m k v rule: map_set.induct) (auto split: if_splits)

lemma map_delete_absent: "map_get m k = None \<Longrightarrow> map_delete m k = m"
  by (induction m) (auto simp: map_get_def map_delete_def split: if_splits)

lemma map_get_map_delete: "map_get (map_delete m k) k' = (if k' = k then None else map_get m k')"
  by (induction m) (auto simp: map_get_def map_delete_def)

lemma foldl_map_delete:
  "foldl (\<lambda>m n. map_delete m (idf n)) m ns = filter (\<lambda>e. fst e \<notin> idf ` set ns) m"
  by (induction ns arbitrary: m) (auto simp: map_delete_def intro: filter_cong)

lemma map_values_filter:
  "map_values (filter (\<lambda>e. P (snd e)) m) = filter P (map_values m)"
  by (induction m) (auto simp: map_values_def)

lemma array_find_None: "array_find p xs = None \<longleftrightarrow> (\<forall>x \<in> set xs. \<not> p x)"
  by (induction xs) auto

lemma array_find_Some: "array_find p xs = Some x \<Longrightarrow> x \<in> set xs \<and> p x"
  by (induction xs) (auto split: if_splits)

lemma array_find_map_set:
  "array_find p (map_values m) = None \<Longrightarrow> p v \<Longrightarrow>
   array_find p (map_values (map_set m k v)) = Some v"
  by (induction m k v rule: map_set.induct) (auto simp: map_values_def split: if_splits)

subsection \<open>Keys and identifiers\<close>

lemma keyed_by_map_set: "keyed_by idf m \<Longrightarrow> idf v = k \<Longrightarrow> keyed_by idf (map_set m k v)"
  using set_map_set_subset [of m k v]
  by (auto simp: keyed_by_def distinct_map_set list_all_iff)

lemma keyed_by_filter: "keyed_by idf m \<Longrightarrow> keyed_by idf (filter P m)"
  by (auto simp: keyed_by_def list_all_iff distinct_map_filter)

lemma keyed_by_map_delete: "keyed_by idf m \<Longrightarrow> keyed_by idf (map_delete m k)"
  by (simp add: map_delete_def keyed_by_filter)

lemma keyed_by_get: "keyed_by idf m \<Longrightarrow> (k, v) \<in> set m \<Longrightarrow> map_get m k = Some v"
  by (simp add: keyed_by_def map_get_def)

lemma keyed_by_lookup: "keyed_by idf m \<Longrightarrow> map_get m k = Some v \<Longrightarrow> idf v = k"
  by (auto simp: keyed_by_def list_all_iff map_get_def dest!: map_of_SomeD)

lemma keyed_by_unique:
  assumes "keyed_by idf m" and "e \<in> set m" and "e' \<in> set m" and "idf (snd e') = fst e"
  shows "e' = e"
proof -
  from assms(1,3) have "idf (snd e') = fst e'"
    by (simp add: keyed_by_def list_all_iff)
  with assms(4) have k: "fst e' = fst e" by simp
  from assms(1) have d: "distinct (map fst m)" by (simp add: keyed_by_def)
  from assms(2) have 1: "(fst e, snd e) \<in> set m" by simp
  from assms(3) k have 2: "(fst e, snd e') \<in> set m" by (metis prod.collapse)
  from eq_key_imp_eq_value [OF d 1 2] k show ?thesis by (simp add: prod_eq_iff)
qed

subsection \<open>Sorting by last-modified time\<close>

text \<open>
  With the comparator of the four queries, \<open>array_sort\<close> is the library's stable
  insertion sort on the negated time stamp.
\<close>

lemma insert_by_insort:
  "insert_by byUpdatedAtDesc x ys = insort_key (\<lambda>n. - note_updatedAt n) x ys"
  by (induction ys) (auto simp: byUpdatedAtDesc_def)

lemma array_sort_sort_key:
  "array_sort byUpdatedAtDesc xs = sort_key (\<lambda>n. - note_updatedAt n) xs"
  by (induction xs) (auto simp: array_sort_def insert_by_insort)

lemma array_sort_Nil: "array_sort cmp [] = []"
  by (simp add: array_sort_def)

lemma sorted_desc_array_sort: "sorted_desc (array_sort byUpdatedAtDesc xs)"
proof -
  have "sorted (map (\<lambda>n. - note_updatedAt n) (sort_key (\<lambda>n. - note_updatedAt n) xs))"
    by (rule sorted_sort_key)
  then show ?thesis
    by (simp add: sorted_desc_def array_sort_sort_key sorted_map sorted_wrt_iff_nth_less)
qed

lemma set_array_sort: "set (array_sort byUpdatedAtDesc xs) = set xs"
  by (simp add: array_sort_sort_key)

lemma filter_array_sort:
  "filter P (array_sort byUpdatedAtDesc xs) = array_sort byUpdatedAtDesc (filter P xs)"
  by (simp add: array_sort_sort_key filter_sort)

lemma sorted_desc_head:
  "sorted_desc (x # xs) \<Longrightarrow> m \<in> set (x # xs) \<Longrightarrow> note_updatedAt m \<le> note_updatedAt x"
  by (auto simp: sorted_desc_def)

lemma filter_swap: "filter P (filter Q xs) = filter Q (filter P xs)"
  by (induction xs) auto

subsection \<open>Substrings\<close>

lemma starts_with_prefix: "starts_with s q = prefix q s"
  by (induction s q rule: starts_with.induct) auto

lemma str_includes_sublist: "str_includes s q = sublist q s"
  by (induction s) (auto simp: starts_with_prefix sublist_Cons_right)

subsection \<open>The folder cascade\<close>

lemma cascade_keys:
  assumes "keyed_by note_id m" and e: "e \<in> set m"
  shows "(fst e \<notin> note_id ` set (filter (\<lambda>n. note_folderId n = Some fid) (map_values m)))
         = (note_folderId (snd e) \<noteq> Some fid)"
proof (cases "note_folderId (snd e) = Some fid")
  case True
  from assms have "note_id (snd e) = fst e"
    by (simp add: keyed_by_def list_all_iff)
  moreover from e True
  have "snd e \<in> set (filter (\<lambda>n. note_folderId n = Some fid) (map_values m))"
    by (simp add: map_values_def)
  ultimately
  have "fst e \<in> note_id ` set (filter (\<lambda>n. note_folderId n = Some fid) (map_values m))"
    by (metis imageI)
  with True show ?thesis by simp
next
  case False
  have "fst e \<notin> note_id ` set (filter (\<lambda>n. note_folderId n = Some fid) (map_values m))"
  proof
    assume "fst e \<in> note_id ` set (filter (\<lambda>n. note_folderId n = Some fid) (map_values m))"
    then obtain n where n: "n \<in> set (map_values m)" "note_folderId n = Some fid"
        "note_id n = fst e"
      by auto
    from n(1) obtain e' where e': "e' \<in> set m" "snd e' = n"
      by (auto simp: map_values_def)
    from keyed_by_unique [OF assms(1) e e'(1)] e'(2) n(3) have "e' = e" by simp
    with e'(2) n(2) False show False by simp
  qed
  with False show ?thesis by simp
qed

lemma cascade_filter:
  assumes "keyed_by note_id m"
  shows "foldl (\<lambda>m n. map_delete m (note_id n)) m
           (filter (\<lambda>n. note_folderId n = Some fid) (map_values m))
         = filter (\<lambda>e. note_folderId (snd e) \<noteq> Some fid) m"
  unfolding foldl_map_delete
  by (rule filter_cong [OF refl]) (rule cascade_keys [OF assms])

lemma deleteFolder_wf:
  "wf_store s \<Longrightarrow> deleteFolder s fid =
     s\<lparr>folders := map_delete (folders s) fid,
       notes := filter (\<lambda>e. note_folderId (snd e) \<noteq> Some fid) (notes s)\<rparr>"
  by (simp add: deleteFolder_def wf_store_def cascade_filter Let_def)

lemma deleteFolder_no_reference:
  assumes "\<not> list_ex (\<lambda>n. note_folderId n = Some fid) (map_values (notes s))"
  shows "deleteFolder s fid = s\<lparr>folders := map_delete (folders s) fid\<rparr>"
proof -
  from assms have "filter (\<lambda>n. note_folderId n = Some fid) (map_values (notes s)) = []"
    by (simp add: list_ex_iff filter_empty_conv)
  then show ?thesis by (simp add: deleteFolder_def Let_def)
qed

lemma deleteNote_absent: "getNote s nid = None \<Longrightarrow> deleteNote s nid = s"
  by (simp add: deleteNote_def getNote_def map_delete_absent)

lemma query_after_cascade:
  "array_sort byUpdatedAtDesc (filter P (filter (\<lambda>n. note_folderId n \<noteq> Some fid) xs))
   = filter (\<lambda>n. note_folderId n \<noteq> Some fid) (array_sort byUpdatedAtDesc (filter P xs))"
  by (simp only: filter_array_sort filter_swap [of P])

lemma folder_filter_after_cascade:
  "filter (\<lambda>n. note_folderId n = Some fid') (filter (\<lambda>n. note_folderId n \<noteq> Some fid) xs)
     = (if fid' = fid then [] else filter (\<lambda>n. note_folderId n = Some fid') xs)"
  by (induction xs) auto

subsection \<open>The invariant is kept\<close>

lemma wf_empty_store: "wf_store empty_store"
  by (simp add: wf_store_def empty_store_def keyed_by_def)

lemma wf_createUser: "wf_store s \<Longrightarrow> wf_store (snd (createUser s uuid now name pw rk ek))"
  by (simp add: wf_store_def createUser_def Let_def keyed_by_map_set)

lemma wf_updateUserPassword: "wf_store s \<Longrightarrow> wf_store (updateUserPassword s uid pw)"
  by (auto simp: wf_store_def updateUserPassword_def split: option.splits
      intro!: keyed_by_map_set dest: keyed_by_lookup)

lemma wf_createFolder: "wf_store s \<Longrightarrow> wf_store (snd (createFolder s uuid now ins uid))"
  by (simp add: wf_store_def createFolder_def Let_def keyed_by_map_set)

lemma wf_deleteFolder: "wf_store s \<Longrightarrow> wf_store (deleteFolder s fid)"
  by (simp add: deleteFolder_wf) (simp add: wf_store_def keyed_by_map_delete keyed_by_filter)

lemma wf_createNote: "wf_store s \<Longrightarrow> wf_store (snd (createNote s uuid now ins uid))"
  by (simp add: wf_store_def createNote_def Let_def keyed_by_map_set)

lemma wf_updateNote: "wf_store s \<Longrightarrow> wf_store (snd (updateNote s now nid upd))"
  by (auto simp: wf_store_def updateNote_def Let_def split: option.splits
      intro!: keyed_by_map_set dest: keyed_by_lookup)

lemma wf_deleteNote: "wf_store s \<Longrightarrow> wf_store (deleteNote s nid)"
  by (simp add: wf_store_def deleteNote_def keyed_by_map_delete)

text \<open>The routes change the store through these operations only.\<close>

lemma wf_register:
  "wf_store s \<Longrightarrow> wf_store (fst (snd (register bc s sess uuid now rk ek salt name pw)))"
  using wf_createUser [of s uuid now name "bcrypt_hash bc salt pw" rk ek]
  by (simp add: register_def Let_def case_prod_beta split: option.splits)

lemma login_store: "fst (snd (login bc s sess name pw)) = s"
  by (simp add: login_def split: option.splits)

lemma wf_recover:
  "wf_store s \<Longrightarrow> wf_store (fst (snd (recover bc s sess salt name rk pw)))"
  by (simp add: recover_def Let_def wf_updateUserPassword split: option.splits)

lemma wf_post_note: "wf_store s \<Longrightarrow> wf_store (snd (post_note s sess uuid now body))"
  by (simp add: post_note_def Let_def case_prod_beta wf_createNote)

lemma wf_put_note: "wf_store s \<Longrightarrow> wf_store (snd (put_note s sess now nid body))"
proof -
  have "snd (case updateNote s now nid upd of
              (None, s') \<Rightarrow> (Inl NotFound, s')
            | (Some n, s') \<Rightarrow> (Inr n, s')) = snd (updateNote s now nid upd)" for upd
    by (cases "updateNote s now nid upd") (auto split: option.splits)
  then show "wf_store s \<Longrightarrow> wf_store (snd (put_note s sess now nid body))"
    by (simp add: put_note_def Let_def wf_updateNote)
qed

lemma wf_delete_routes:
  "wf_store s \<Longrightarrow> wf_store (snd (delete_folder s sess fid))"
  "wf_store s \<Longrightarrow> wf_store (snd (delete_note s sess nid))"
  by (simp_all add: delete_folder_def delete_note_def wf_deleteFolder wf_deleteNote)

section \<open>The claims\<close>

subsection \<open>Ownership of query results\<close>

lemma list_queries_scoped:
  "n \<in> set (getNotesByUserId s uid) \<Longrightarrow> note_userId n = uid"
  "n \<in> set (getPinnedNotes s uid) \<Longrightarrow> note_userId n = uid"
  "n \<in> set (searchNotes s uid q) \<Longrightarrow> note_userId n = uid"
  by (auto simp: getNotesByUserId_def getPinnedNotes_def searchNotes_def set_array_sort)

text \<open>
  Claim C1 says that every note returned by a read query issued for a user is owned by
  that user, and in particular that the by-folder listing never returns a note of
  another user. The lemma above gives this for the listing by user, the pinned listing
  and the search. The by-folder listing filters on \<^verbatim>\<open>folderId\<close> alone, and the route
  passes the folder identifier of the query string to it unchecked: in \<open>demo_store\<close>
  the session of \<open>bob\<close>, asking for folder \<open>f1\<close>, receives the note \<open>n1\<close> of \<open>alice\<close>.
\<close>

theorem get_notes_by_folder_crosses_owner:
  "get_notes demo_store (Some ''bob'') by_folder_f1 = Inr [alice_n1]
   \<and> note_userId alice_n1 = ''alice''
   \<and> getNotesByFolderId demo_store ''f1'' = [alice_n1]"
  by code_simp

subsection \<open>Updating a note\<close>

lemma updateNote_Some:
  assumes "getNote s nid = Some n"
  shows "\<exists>n'. updateNote s now nid upd = (Some n', s\<lparr>notes := map_set (notes s) nid n'\<rparr>)
     \<and> note_id n' = note_id n \<and> note_userId n' = note_userId n
     \<and> note_createdAt n' = note_createdAt n
     \<and> note_encryptedContent n' = note_encryptedContent n
     \<and> note_title n' = (case un_title upd of Some t \<Rightarrow> t | None \<Rightarrow> note_title n)
     \<and> note_content n' = (case un_content upd of Some c \<Rightarrow> c | None \<Rightarrow> note_content n)
     \<and> note_tags n' = (case un_tags upd of Some ts \<Rightarrow> ts | None \<Rightarrow> note_tags n)
     \<and> note_isPinned n' = (case un_isPinned upd of Some b \<Rightarrow> b | None \<Rightarrow> note_isPinned n)
     \<and> note_folderId n' = (case un_folderId upd of Some f \<Rightarrow> f | None \<Rightarrow> note_folderId n)
     \<and> note_wordCount n' =
         (case un_content upd of
            Some c \<Rightarrow> if c \<noteq> [] then toString (word_count c) else note_wordCount n
          | None \<Rightarrow> note_wordCount n)
     \<and> note_updatedAt n' = now"
  using assms by (simp add: updateNote_def getNote_def Let_def)

text \<open>
  Claim C2 says that \<open>updateNote\<close> leaves omitted fields unchanged, always refreshes
  \<^verbatim>\<open>updatedAt\<close>, and, when content is supplied, the empty string included, stores the
  number of tokens of the new content as word count. The lemma above gives all of it
  but the case of the empty string: the word count is recomputed only when the supplied
  content is truthy. Emptying the content of note \<open>n1\<close> of \<open>demo_store\<close> stores the
  empty content with the old word count 2, where the empty content has 0 tokens.
\<close>

theorem updateNote_empty_content_keeps_word_count:
  "map_option note_wordCount (getNote demo_store ''n1'') = Some ''2''
   \<and> map_option note_content (fst (updateNote demo_store 5000 ''n1'' clear_content)) = Some []
   \<and> map_option note_wordCount (fst (updateNote demo_store 5000 ''n1'' clear_content)) = Some ''2''
   \<and> toString (word_count []) = ''0''"
  by code_simp

subsection \<open>Deleting what is not there\<close>

text \<open>
  The store's \<open>deleteNote\<close> and \<open>deleteFolder\<close> have no failure outcome, and the two
  delete routes answer success to every authenticated caller.
\<close>

lemma delete_routes_succeed:
  assumes "truthy sess"
  shows "delete_note s sess nid = (Inr (), deleteNote s nid)"
    and "delete_folder s sess fid = (Inr (), deleteFolder s fid)"
  using assms by (simp_all add: delete_note_def delete_folder_def)

text \<open>
  Claim C3, as amended. Deleting a note identifier that is not in the store succeeds and
  leaves the store unchanged. Deleting a folder identifier that is not in the store
  succeeds and leaves all users, all folders and every note whose \<^verbatim>\<open>folderId\<close> differs
  from the identifier unchanged; the notes whose \<^verbatim>\<open>folderId\<close> is the identifier are
  removed, so the store is unchanged when no note names the identifier as its folder.
\<close>

theorem delete_nonexistent_amended:
  "(getNote s nid = None \<longrightarrow> deleteNote s nid = s)
   \<and> (wf_store s \<and> getFolder s fid = None \<longrightarrow>
          users (deleteFolder s fid) = users s
        \<and> folders (deleteFolder s fid) = folders s
        \<and> notes (deleteFolder s fid)
            = filter (\<lambda>e. note_folderId (snd e) \<noteq> Some fid) (notes s))
   \<and> (getFolder s fid = None
        \<and> \<not> list_ex (\<lambda>n. note_folderId n = Some fid) (map_values (notes s))
        \<longrightarrow> deleteFolder s fid = s)"
proof (intro conjI impI)
  assume "getNote s nid = None"
  then show "deleteNote s nid = s"
    by (rule deleteNote_absent)
next
  assume a: "wf_store s \<and> getFolder s fid = None"
  then have b: "map_delete (folders s) fid = folders s"
    by (simp add: getFolder_def map_delete_absent)
  from a show "users (deleteFolder s fid) = users s"
    by (simp add: deleteFolder_wf)
  from a b show "folders (deleteFolder s fid) = folders s"
    by (simp add: deleteFolder_wf)
  from a show "notes (deleteFolder s fid)
      = filter (\<lambda>e. note_folderId (snd e) \<noteq> Some fid) (notes s)"
    by (simp add: deleteFolder_wf)
next
  assume a: "getFolder s fid = None
    \<and> \<not> list_ex (\<lambda>n. note_folderId n = Some fid) (map_values (notes s))"
  then have b: "map_delete (folders s) fid = folders s"
    by (simp add: getFolder_def map_delete_absent)
  from a have "deleteFolder s fid = s\<lparr>folders := map_delete (folders s) fid\<rparr>"
    by (simp add: deleteFolder_no_reference)
  with b show "deleteFolder s fid = s"
    by simp
qed

theorem delete_nonexistent_witness:
  "getNote demo_store ''n9'' = None
   \<and> deleteNote demo_store ''n9'' = demo_store
   \<and> wf_store dangling_store \<and> getFolder dangling_store ''f1'' = None
   \<and> users (deleteFolder dangling_store ''f1'') = users dangling_store
   \<and> folders (deleteFolder dangling_store ''f1'') = folders dangling_store
   \<and> notes (deleteFolder dangling_store ''f1'')
       = filter (\<lambda>e. note_folderId (snd e) \<noteq> Some ''f1'') (notes dangling_store)
   \<and> getFolder demo_store ''f9'' = None
   \<and> \<not> list_ex (\<lambda>n. note_folderId n = Some ''f9'') (map_values (notes demo_store))
   \<and> deleteFolder demo_store ''f9'' = demo_store"
proof -
  have a1: "getNote demo_store ''n9'' = None" by code_simp
  have a2: "wf_store dangling_store \<and> getFolder dangling_store ''f1'' = None" by code_simp
  have a3: "getFolder demo_store ''f9'' = None
    \<and> \<not> list_ex (\<lambda>n. note_folderId n = Some ''f9'') (map_values (notes demo_store))"
    by code_simp
  note d1 = delete_nonexistent_amended [of demo_store "''n9''" "''f9''"]
  note d2 = delete_nonexistent_amended [of dangling_store "''n9''" "''f1''"]
  from d1 a1 have c1: "deleteNote demo_store ''n9'' = demo_store"
    by blast
  from d2 a2 have c2: "users (deleteFolder dangling_store ''f1'') = users dangling_store
   \<and> folders (deleteFolder dangling_store ''f1'') = folders dangling_store
   \<and> notes (deleteFolder dangling_store ''f1'')
       = filter (\<lambda>e. note_folderId (snd e) \<noteq> Some ''f1'') (notes dangling_store)"
    by blast
  from d1 a3 have c3: "deleteFolder demo_store ''f9'' = demo_store"
    by blast
  from a1 a2 a3 c1 c2 c3 show ?thesis by blast
qed

text \<open>
  The claim as stated fails where a note names a folder that does not exist: deleting
  that folder identifier removes the note.
\<close>

theorem delete_nonexistent_folder_counterexample:
  "getFolder dangling_store ''f1'' = None
   \<and> getNote dangling_store ''n1'' = Some alice_n1
   \<and> fst (delete_folder dangling_store (Some ''alice'') ''f1'') = Inr ()
   \<and> getNote (snd (delete_folder dangling_store (Some ''alice'') ''f1'')) ''n1'' = None"
  by code_simp

subsection \<open>The folder cascade\<close>

text \<open>
  Claim C4. For a folder that exists, \<open>deleteFolder\<close> removes the folder and exactly the
  notes whose \<^verbatim>\<open>folderId\<close> is its identifier. Every other folder (child folders
  included), every user and every other note is unchanged, so each of the queries
  returns afterwards what it returned before, less the notes of the deleted folder.
\<close>

theorem deleteFolder_cascade:
  assumes "wf_store s" and "getFolder s fid \<noteq> None"
  shows "getFolder (deleteFolder s fid) fid = None
       \<and> folders (deleteFolder s fid) = filter (\<lambda>e. fst e \<noteq> fid) (folders s)
       \<and> notes (deleteFolder s fid) = filter (\<lambda>e. note_folderId (snd e) \<noteq> Some fid) (notes s)
       \<and> users (deleteFolder s fid) = users s
       \<and> getNotesByUserId (deleteFolder s fid) uid
           = filter (\<lambda>n. note_folderId n \<noteq> Some fid) (getNotesByUserId s uid)
       \<and> getPinnedNotes (deleteFolder s fid) uid
           = filter (\<lambda>n. note_folderId n \<noteq> Some fid) (getPinnedNotes s uid)
       \<and> searchNotes (deleteFolder s fid) uid q
           = filter (\<lambda>n. note_folderId n \<noteq> Some fid) (searchNotes s uid q)
       \<and> getNotesByFolderId (deleteFolder s fid) fid'
           = (if fid' = fid then [] else getNotesByFolderId s fid')"
proof -
  note d = deleteFolder_wf [OF assms(1), of fid]
  have 1: "getFolder (deleteFolder s fid) fid = None"
    by (simp add: d getFolder_def map_get_map_delete)
  have 2: "folders (deleteFolder s fid) = filter (\<lambda>e. fst e \<noteq> fid) (folders s)"
    by (simp add: d map_delete_def)
  have 3: "notes (deleteFolder s fid)
           = filter (\<lambda>e. note_folderId (snd e) \<noteq> Some fid) (notes s)"
    by (simp add: d)
  have 4: "users (deleteFolder s fid) = users s"
    by (simp add: d)
  have v: "map_values (notes (deleteFolder s fid))
           = filter (\<lambda>n. note_folderId n \<noteq> Some fid) (map_values (notes s))"
    unfolding 3 by (rule map_values_filter)
  have 5: "getNotesByUserId (deleteFolder s fid) uid
           = filter (\<lambda>n. note_folderId n \<noteq> Some fid) (getNotesByUserId s uid)"
    by (simp only: getNotesByUserId_def v query_after_cascade)
  have 6: "getPinnedNotes (deleteFolder s fid) uid
           = filter (\<lambda>n. note_folderId n \<noteq> Some fid) (getPinnedNotes s uid)"
    by (simp only: getPinnedNotes_def v query_after_cascade)
  have 7: "searchNotes (deleteFolder s fid) uid q
           = filter (\<lambda>n. note_folderId n \<noteq> Some fid) (searchNotes s uid q)"
    by (simp only: searchNotes_def Let_def v query_after_cascade)
  have 8: "getNotesByFolderId (deleteFolder s fid) fid'
           = (if fid' = fid then [] else getNotesByFolderId s fid')"
    unfolding getNotesByFolderId_def v folder_filter_after_cascade
    by (simp add: array_sort_Nil)
  from 1 2 3 4 5 6 7 8 show ?thesis by (intro conjI)
qed

text \<open>
  In \<open>demo_store\<close>, deleting folder \<open>f1\<close> removes note \<open>n1\<close>; the child folder \<open>f2\<close>
  and its note \<open>n2\<close> stay.
\<close>

theorem deleteFolder_cascade_witness:
  "wf_store demo_store \<and> getFolder demo_store ''f1'' \<noteq> None
   \<and> getFolder (deleteFolder demo_store ''f1'') ''f1'' = None
   \<and> folders (deleteFolder demo_store ''f1'') = filter (\<lambda>e. fst e \<noteq> ''f1'') (folders demo_store)
   \<and> getNotesByUserId (deleteFolder demo_store ''f1'') ''alice''
       = filter (\<lambda>n. note_folderId n \<noteq> Some ''f1'') (getNotesByUserId demo_store ''alice'')
   \<and> getNotesByFolderId (deleteFolder demo_store ''f1'') ''f2'' = getNotesByFolderId demo_store ''f2''
   \<and> map note_id (getNotesByUserId demo_store ''alice'') = [''n2'', ''n1'']
   \<and> map note_id (getNotesByUserId (deleteFolder demo_store ''f1'') ''alice'') = [''n2'']
   \<and> map fst (folders (deleteFolder demo_store ''f1'')) = [''f2'']"
proof -
  have h1: "wf_store demo_store" by code_simp
  have h2: "getFolder demo_store ''f1'' \<noteq> None" by code_simp
  have e: "map note_id (getNotesByUserId demo_store ''alice'') = [''n2'', ''n1'']
   \<and> map note_id (getNotesByUserId (deleteFolder demo_store ''f1'') ''alice'') = [''n2'']
   \<and> map fst (folders (deleteFolder demo_store ''f1'')) = [''f2'']"
    by code_simp
  from h1 h2 e deleteFolder_cascade [OF h1 h2, of "''alice''" "''alpha''" "''f2''"]
  show ?thesis by simp
qed

subsection \<open>Order of the query results\<close>

lemma front_after_touch:
  assumes d: "keyed_by note_id m"
    and others: "list_all (\<lambda>x. note_id x = nid \<or> note_updatedAt x < note_updatedAt n')
                   (filter (\<lambda>x. note_userId x = uid) (map_values m))"
    and own: "note_userId n' = uid"
  shows "\<exists>rest. array_sort byUpdatedAtDesc
            (filter (\<lambda>x. note_userId x = uid) (map_values (map_set m nid n'))) = n' # rest"
proof -
  let ?L = "array_sort byUpdatedAtDesc
              (filter (\<lambda>x. note_userId x = uid) (map_values (map_set m nid n')))"
  have mem: "n' \<in> set ?L"
    using map_set_mem [of nid n' m] own
    by (force simp: set_array_sort map_values_def)
  have old: "x = n' \<or> note_updatedAt x < note_updatedAt n'" if "x \<in> set ?L" for x
  proof -
    from that obtain e where e: "e \<in> set (map_set m nid n')" "snd e = x" "note_userId x = uid"
      by (auto simp: set_array_sort map_values_def)
    from d have "distinct (map fst m)" by (simp add: keyed_by_def)
    from map_set_cases [OF this e(1)] show ?thesis
    proof
      assume "e = (nid, n')"
      with e(2) show ?thesis by simp
    next
      assume a: "e \<in> set m \<and> fst e \<noteq> nid"
      with d have "note_id (snd e) = fst e" by (simp add: keyed_by_def list_all_iff)
      with a e(2) have "note_id x \<noteq> nid" by simp
      moreover from a e(2,3) have "x \<in> set (filter (\<lambda>x. note_userId x = uid) (map_values m))"
        by (auto simp: map_values_def)
      ultimately show ?thesis using others by (auto simp: list_all_iff)
    qed
  qed
  from mem obtain h rest where L: "?L = h # rest"
    by (cases ?L) auto
  have "sorted_desc ?L" by (rule sorted_desc_array_sort)
  with L mem have "note_updatedAt n' \<le> note_updatedAt h"
    using sorted_desc_head [of h rest n'] by simp
  moreover have "h = n' \<or> note_updatedAt h < note_updatedAt n'"
    using old [of h] L by simp
  ultimately have "h = n'" by auto
  with L show ?thesis by simp
qed

text \<open>
  Claim C5. Each of the four queries returns its notes ordered by \<^verbatim>\<open>updatedAt\<close>, most
  recent first. Consequently, when a note of user \<open>uid\<close> is updated at a time later
  than the last modification of every other note of that user, it is the first element
  of the next listing of the user's notes.
\<close>

theorem list_queries_sorted_desc:
  "sorted_desc (getNotesByUserId s uid) \<and> sorted_desc (getNotesByFolderId s fid)
   \<and> sorted_desc (getPinnedNotes s uid) \<and> sorted_desc (searchNotes s uid q)
   \<and> (wf_store s \<and> map_option note_userId (getNote s nid) = Some uid
        \<and> list_all (\<lambda>m. note_id m = nid \<or> note_updatedAt m < now) (getNotesByUserId s uid)
      \<longrightarrow> (\<exists>n' s' rest. updateNote s now nid upd = (Some n', s')
            \<and> note_id n' = nid \<and> note_updatedAt n' = now
            \<and> getNotesByUserId s' uid = n' # rest))"
proof (intro conjI impI)
  show "sorted_desc (getNotesByUserId s uid)"
    unfolding getNotesByUserId_def by (rule sorted_desc_array_sort)
  show "sorted_desc (getNotesByFolderId s fid)"
    unfolding getNotesByFolderId_def by (rule sorted_desc_array_sort)
  show "sorted_desc (getPinnedNotes s uid)"
    unfolding getPinnedNotes_def by (rule sorted_desc_array_sort)
  show "sorted_desc (searchNotes s uid q)"
    unfolding searchNotes_def Let_def by (rule sorted_desc_array_sort)
next
  assume a: "wf_store s \<and> map_option note_userId (getNote s nid) = Some uid
        \<and> list_all (\<lambda>m. note_id m = nid \<or> note_updatedAt m < now) (getNotesByUserId s uid)"
  then have k: "keyed_by note_id (notes s)"
    by (simp add: wf_store_def)
  from a obtain n where g: "getNote s nid = Some n" and own: "note_userId n = uid"
    by auto
  from k g have nid: "note_id n = nid"
    unfolding getNote_def by (rule keyed_by_lookup)
  from updateNote_Some [OF g, of now upd] obtain n' where
    u: "updateNote s now nid upd = (Some n', s\<lparr>notes := map_set (notes s) nid n'\<rparr>)"
    and n': "note_userId n' = note_userId n" "note_updatedAt n' = now" "note_id n' = note_id n"
    by blast
  from a n'(2) have others:
    "list_all (\<lambda>x. note_id x = nid \<or> note_updatedAt x < note_updatedAt n')
       (filter (\<lambda>x. note_userId x = uid) (map_values (notes s)))"
    by (simp add: getNotesByUserId_def list_all_iff set_array_sort)
  from n'(1) own have "note_userId n' = uid" by simp
  from front_after_touch [OF k others this] obtain rest where
    "getNotesByUserId (s\<lparr>notes := map_set (notes s) nid n'\<rparr>) uid = n' # rest"
    by (auto simp: getNotesByUserId_def)
  with u n' nid show "\<exists>n' s' rest. updateNote s now nid upd = (Some n', s')
            \<and> note_id n' = nid \<and> note_updatedAt n' = now
            \<and> getNotesByUserId s' uid = n' # rest"
    by auto
qed

text \<open>
  In \<open>demo_store\<close> the notes of \<open>alice\<close> are listed \<open>n2\<close>, \<open>n1\<close>; after retagging \<open>n1\<close>
  at time 5000 they are listed \<open>n1\<close>, \<open>n2\<close>.
\<close>

theorem list_queries_sorted_desc_witness:
  "wf_store demo_store \<and> map_option note_userId (getNote demo_store ''n1'') = Some ''alice''
   \<and> list_all (\<lambda>m. note_id m = ''n1'' \<or> note_updatedAt m < 5000)
        (getNotesByUserId demo_store ''alice'')
   \<and> (\<exists>n' s' rest. updateNote demo_store 5000 ''n1'' retag = (Some n', s')
            \<and> note_id n' = ''n1'' \<and> note_updatedAt n' = 5000
            \<and> getNotesByUserId s' ''alice'' = n' # rest)
   \<and> map note_id (getNotesByUserId demo_store ''alice'') = [''n2'', ''n1'']
   \<and> map note_id (getNotesByUserId (snd (updateNote demo_store 5000 ''n1'' retag)) ''alice'')
       = [''n1'', ''n2'']"
proof -
  have h: "wf_store demo_store \<and> map_option note_userId (getNote demo_store ''n1'') = Some ''alice''
   \<and> list_all (\<lambda>m. note_id m = ''n1'' \<or> note_updatedAt m < 5000)
        (getNotesByUserId demo_store ''alice'')"
    by code_simp
  have e: "map note_id (getNotesByUserId demo_store ''alice'') = [''n2'', ''n1'']
   \<and> map note_id (getNotesByUserId (snd (updateNote demo_store 5000 ''n1'' retag)) ''alice'')
       = [''n1'', ''n2'']"
    by code_simp
  from h list_queries_sorted_desc [of demo_store "''alice''" "''f1''" "''alpha''" "''n1''" 5000 retag]
  have c: "\<exists>n' s' rest. updateNote demo_store 5000 ''n1'' retag = (Some n', s')
            \<and> note_id n' = ''n1'' \<and> note_updatedAt n' = 5000
            \<and> getNotesByUserId s' ''alice'' = n' # rest"
    by blast
  from h e c show ?thesis by blast
qed

subsection \<open>Search\<close>

text \<open>
  Claim C6. \<open>searchNotes\<close> returns exactly the notes of the user whose lower-cased
  title or lower-cased content contains the lower-cased query as a contiguous substring,
  or one of whose tags does when lower-cased.
\<close>

theorem searchNotes_exact:
  "n \<in> set (searchNotes s uid q) \<longleftrightarrow>
     n \<in> set (map_values (notes s)) \<and> note_userId n = uid \<and>
     (sublist (toLowerCase q) (toLowerCase (note_title n))
      \<or> sublist (toLowerCase q) (toLowerCase (note_content n))
      \<or> (\<exists>tag \<in> set (note_tags n). sublist (toLowerCase q) (toLowerCase tag)))"
  by (auto simp: searchNotes_def Let_def set_array_sort note_matches_def
      str_includes_sublist list_ex_iff)

text \<open>
  In \<open>demo_store\<close>, the query \<open>ALPHA\<close> of \<open>alice\<close> finds \<open>n1\<close> (title "Alpha Plan", tag
  "alpha-2") and nothing else.
\<close>

theorem searchNotes_exact_witness:
  "alice_n1 \<in> set (map_values (notes demo_store)) \<and> note_userId alice_n1 = ''alice''
   \<and> str_includes (toLowerCase (note_title alice_n1)) (toLowerCase ''ALPHA'')
   \<and> alice_n1 \<in> set (searchNotes demo_store ''alice'' ''ALPHA'')
   \<and> searchNotes demo_store ''alice'' ''ALPHA'' = [alice_n1]"
proof -
  have h: "alice_n1 \<in> set (map_values (notes demo_store)) \<and> note_userId alice_n1 = ''alice''
   \<and> str_includes (toLowerCase (note_title alice_n1)) (toLowerCase ''ALPHA'')"
    by code_simp
  have e: "searchNotes demo_store ''alice'' ''ALPHA'' = [alice_n1]"
    by code_simp
  from h have "alice_n1 \<in> set (searchNotes demo_store ''alice'' ''ALPHA'')"
    unfolding searchNotes_exact [of alice_n1 demo_store "''alice''" "''ALPHA''"]
    by (simp add: str_includes_sublist)
  with h e show ?thesis by blast
qed

subsection \<open>Account recovery\<close>

lemma updateUserPassword_found:
  assumes "keyed_by user_id (users s)" and "getUserByUsername s username = Some u"
  shows "updateUserPassword s (user_id u) pw
         = s\<lparr>users := map_set (users s) (user_id u) (u\<lparr>user_password := pw\<rparr>)\<rparr>"
proof -
  from array_find_Some assms(2) have "u \<in> set (map_values (users s))"
    unfolding getUserByUsername_def by fastforce
  then obtain e where e: "e \<in> set (users s)" "snd e = u"
    by (auto simp: map_values_def)
  with assms(1) have "fst e = user_id u"
    by (auto simp: keyed_by_def list_all_iff)
  with e have "(user_id u, u) \<in> set (users s)" by (metis prod.collapse)
  with assms(1) have "map_get (users s) (user_id u) = Some u"
    by (rule keyed_by_get)
  then show ?thesis by (simp add: updateUserPassword_def)
qed

text \<open>
  Claim C7, as amended. A recovery request that fails \<^verbatim>\<open>recoverySchema\<close> (empty user
  name, empty recovery key, or new password shorter than six) is rejected as a
  validation error. A well-formed request is rejected as \<open>InvalidRecovery\<close> when no
  user has the user name, or when the stored recovery key of the user differs from the
  supplied one. In each of these cases the store is unchanged. Only a well-formed
  request with the exact recovery key replaces the password hash of that user, and
  nothing else.
\<close>

theorem recover_amended:
  "(\<not> recoverySchema username recoveryKey newPassword \<longrightarrow>
      recover bc s sess salt username recoveryKey newPassword = (Inl ValidationError, s, sess))
   \<and> (recoverySchema username recoveryKey newPassword
        \<and> \<not> list_ex (\<lambda>u. user_username u = username) (map_values (users s)) \<longrightarrow>
      recover bc s sess salt username recoveryKey newPassword = (Inl InvalidRecovery, s, sess))
   \<and> (recoverySchema username recoveryKey newPassword
        \<and> getUserByUsername s username = Some u \<and> user_recoveryKey u \<noteq> recoveryKey \<longrightarrow>
      recover bc s sess salt username recoveryKey newPassword = (Inl InvalidRecovery, s, sess))
   \<and> (wf_store s \<and> recoverySchema username recoveryKey newPassword
        \<and> getUserByUsername s username = Some u \<and> user_recoveryKey u = recoveryKey \<longrightarrow>
      recover bc s sess salt username recoveryKey newPassword
        = (Inr (summary_of u, user_encryptionKey u),
           s\<lparr>users := map_set (users s) (user_id u)
                (u\<lparr>user_password := bcrypt_hash bc salt newPassword\<rparr>)\<rparr>,
           Some (user_id u)))"
proof (intro conjI impI)
  assume "\<not> recoverySchema username recoveryKey newPassword"
  then show "recover bc s sess salt username recoveryKey newPassword
             = (Inl ValidationError, s, sess)"
    by (simp add: recover_def)
next
  assume "recoverySchema username recoveryKey newPassword
        \<and> \<not> list_ex (\<lambda>u. user_username u = username) (map_values (users s))"
  then show "recover bc s sess salt username recoveryKey newPassword
             = (Inl InvalidRecovery, s, sess)"
    by (simp add: recover_def getUserByUsername_def array_find_None [THEN iffD2] list_ex_iff)
next
  assume "recoverySchema username recoveryKey newPassword
        \<and> getUserByUsername s username = Some u \<and> user_recoveryKey u \<noteq> recoveryKey"
  then show "recover bc s sess salt username recoveryKey newPassword
             = (Inl InvalidRecovery, s, sess)"
    by (simp add: recover_def)
next
  assume a: "wf_store s \<and> recoverySchema username recoveryKey newPassword
        \<and> getUserByUsername s username = Some u \<and> user_recoveryKey u = recoveryKey"
  then have "keyed_by user_id (users s)" by (simp add: wf_store_def)
  from updateUserPassword_found [OF this, of username u] a
  show "recover bc s sess salt username recoveryKey newPassword
        = (Inr (summary_of u, user_encryptionKey u),
           s\<lparr>users := map_set (users s) (user_id u)
                (u\<lparr>user_password := bcrypt_hash bc salt newPassword\<rparr>)\<rparr>,
           Some (user_id u))"
    by (simp add: recover_def Let_def)
qed

theorem recover_amended_witness:
  "\<not> recoverySchema ''alice'' ''rk'' ''abc''
   \<and> recover stub_bcrypt user_store None ''s2'' ''alice'' ''rk'' ''abc''
       = (Inl ValidationError, user_store, None)
   \<and> recoverySchema ''ghost'' ''rk'' ''secret2''
   \<and> \<not> list_ex (\<lambda>u. user_username u = ''ghost'') (map_values (users user_store))
   \<and> recover stub_bcrypt user_store None ''s2'' ''ghost'' ''rk'' ''secret2''
       = (Inl InvalidRecovery, user_store, None)
   \<and> recoverySchema ''alice'' ''RK'' ''secret2''
   \<and> getUserByUsername user_store ''alice'' = Some alice_user
   \<and> user_recoveryKey alice_user \<noteq> ''RK''
   \<and> recover stub_bcrypt user_store None ''s2'' ''alice'' ''RK'' ''secret2''
       = (Inl InvalidRecovery, user_store, None)
   \<and> wf_store user_store \<and> recoverySchema ''alice'' ''rk'' ''secret2''
   \<and> user_recoveryKey alice_user = ''rk''
   \<and> recover stub_bcrypt user_store None ''s2'' ''alice'' ''rk'' ''secret2''
        = (Inr (summary_of alice_user, user_encryptionKey alice_user),
           user_store\<lparr>users := map_set (users user_store) (user_id alice_user)
                (alice_user\<lparr>user_password := bcrypt_hash stub_bcrypt ''s2'' ''secret2''\<rparr>)\<rparr>,
           Some (user_id alice_user))"
proof -
  have a1: "\<not> recoverySchema ''alice'' ''rk'' ''abc''" by code_simp
  have a2: "recoverySchema ''ghost'' ''rk'' ''secret2''
     \<and> \<not> list_ex (\<lambda>u. user_username u = ''ghost'') (map_values (users user_store))"
    by code_simp
  have a3: "recoverySchema ''alice'' ''RK'' ''secret2''
     \<and> getUserByUsername user_store ''alice'' = Some alice_user
     \<and> user_recoveryKey alice_user \<noteq> ''RK''"
    by code_simp
  have a4: "wf_store user_store \<and> recoverySchema ''alice'' ''rk'' ''secret2''
     \<and> getUserByUsername user_store ''alice'' = Some alice_user
     \<and> user_recoveryKey alice_user = ''rk''"
    by code_simp
  from a1 recover_amended [of "''alice''" "''rk''" "''abc''" stub_bcrypt user_store None "''s2''" alice_user]
  have c1: "recover stub_bcrypt user_store None ''s2'' ''alice'' ''rk'' ''abc''
       = (Inl ValidationError, user_store, None)"
    by blast
  from a2 recover_amended [of "''ghost''" "''rk''" "''secret2''" stub_bcrypt user_store None "''s2''" alice_user]
  have c2: "recover stub_bcrypt user_store None ''s2'' ''ghost'' ''rk'' ''secret2''
       = (Inl InvalidRecovery, user_store, None)"
    by blast
  from a3 recover_amended [of "''alice''" "''RK''" "''secret2''" stub_bcrypt user_store None "''s2''" alice_user]
  have c3: "recover stub_bcrypt user_store None ''s2'' ''alice'' ''RK'' ''secret2''
       = (Inl InvalidRecovery, user_store, None)"
    by blast
  from a4 recover_amended [of "''alice''" "''rk''" "''secret2''" stub_bcrypt user_store None "''s2''" alice_user]
  have c4: "recover stub_bcrypt user_store None ''s2'' ''alice'' ''rk'' ''secret2''
        = (Inr (summary_of alice_user, user_encryptionKey alice_user),
           user_store\<lparr>users := map_set (users user_store) (user_id alice_user)
                (alice_user\<lparr>user_password := bcrypt_hash stub_bcrypt ''s2'' ''secret2''\<rparr>)\<rparr>,
           Some (user_id alice_user))"
    by blast
  from a1 a2 a3 a4 c1 c2 c3 c4 show ?thesis by blast
qed

text \<open>
  The claim as stated fails on a malformed request: for an unknown user name and a
  new password of three characters the handler answers with the validation error, not
  with \<open>InvalidRecovery\<close>.
\<close>

theorem recover_malformed_counterexample:
  "getUserByUsername user_store ''ghost'' = None
   \<and> fst (recover stub_bcrypt user_store None ''s2'' ''ghost'' ''rk'' ''abc'') = Inl ValidationError
   \<and> fst (recover stub_bcrypt user_store None ''s2'' ''ghost'' ''rk'' ''abc'') \<noteq> Inl InvalidRecovery"
  by code_simp

subsection \<open>Registration and login\<close>

text \<open>
  Claim C8, as amended. Let user name and password both be non-empty (the pairs that
  \<^verbatim>\<open>loginSchema\<close> accepts; \<^verbatim>\<open>insertUserSchema\<close> accepts any two strings), let no
  user have the user name yet, and let bcrypt accept the password against the hash it
  made of it. Then registration succeeds, and a login with the same credentials right
  after it succeeds and returns the encryption key that registration returned.
\<close>

theorem register_then_login:
  assumes "bcrypt_compare bc password (bcrypt_hash bc salt password)"
    and "loginSchema username password"
    and "getUserByUsername s username = None"
  shows "\<exists>s1 sess1 uid.
           register bc s sess uuid now recoveryKey encryptionKey salt username password
             = (Inr (\<lparr>us_id = uid, us_username = username\<rparr>, recoveryKey, encryptionKey),
                s1, sess1)
         \<and> (\<exists>sess2. login bc s1 sess1 username password
             = (Inr (\<lparr>us_id = uid, us_username = username\<rparr>, encryptionKey), s1, sess2))"
proof -
  let ?u = "\<lparr>user_id = uuid, user_username = username,
              user_password = bcrypt_hash bc salt password,
              user_recoveryKey = recoveryKey, user_encryptionKey = encryptionKey,
              user_createdAt = now\<rparr>"
  let ?s1 = "s\<lparr>users := map_set (users s) uuid ?u\<rparr>"
  have r: "register bc s sess uuid now recoveryKey encryptionKey salt username password
           = (Inr (\<lparr>us_id = uuid, us_username = username\<rparr>, recoveryKey, encryptionKey),
              ?s1, Some uuid)"
    using assms(3) by (simp add: register_def createUser_def Let_def summary_of_def)
  from assms(3) have "getUserByUsername ?s1 username = Some ?u"
    by (simp add: getUserByUsername_def array_find_map_set)
  with assms(1,2) have l: "login bc ?s1 (Some uuid) username password
           = (Inr (\<lparr>us_id = uuid, us_username = username\<rparr>, encryptionKey), ?s1, Some uuid)"
    by (simp add: login_def summary_of_def)
  from r l show ?thesis by blast
qed

theorem register_then_login_witness:
  "bcrypt_compare stub_bcrypt ''hunter2'' (bcrypt_hash stub_bcrypt ''s3'' ''hunter2'')
   \<and> loginSchema ''carol'' ''hunter2''
   \<and> getUserByUsername user_store ''carol'' = None
   \<and> (\<exists>s1 sess1 uid.
           register stub_bcrypt user_store None ''u2'' 7 ''rk2'' ''ek2'' ''s3'' ''carol'' ''hunter2''
             = (Inr (\<lparr>us_id = uid, us_username = ''carol''\<rparr>, ''rk2'', ''ek2''), s1, sess1)
         \<and> (\<exists>sess2. login stub_bcrypt s1 sess1 ''carol'' ''hunter2''
             = (Inr (\<lparr>us_id = uid, us_username = ''carol''\<rparr>, ''ek2''), s1, sess2)))"
proof -
  have h1: "bcrypt_compare stub_bcrypt ''hunter2'' (bcrypt_hash stub_bcrypt ''s3'' ''hunter2'')"
    by code_simp
  have h2: "loginSchema ''carol'' ''hunter2''" by code_simp
  have h3: "getUserByUsername user_store ''carol'' = None" by code_simp
  from h1 h2 h3
    register_then_login [OF h1 h2 h3, of None "''u2''" 7 "''rk2''" "''ek2''"]
  show ?thesis by blast
qed

text \<open>
  The claim read with every pair that registration accepts fails on an empty password:
  \<^verbatim>\<open>insertUserSchema\<close> asks for two strings only, so the unregistered user name
  \<open>dave\<close> registers with the empty password, bcrypt accepts that password against its
  hash, and the login right after it is turned down by \<^verbatim>\<open>loginSchema\<close> as a
  validation error.
\<close>

theorem register_then_login_counterexample:
  "getUserByUsername empty_store ''dave'' = None
   \<and> bcrypt_compare stub_bcrypt [] (bcrypt_hash stub_bcrypt ''salt'' [])
   \<and> fst (register stub_bcrypt empty_store None ''u1'' 5 ''rk'' ''ek'' ''salt'' ''dave'' [])
       = Inr (\<lparr>us_id = ''u1'', us_username = ''dave''\<rparr>, ''rk'', ''ek'')
   \<and> fst (login stub_bcrypt
        (fst (snd (register stub_bcrypt empty_store None ''u1'' 5 ''rk'' ''ek'' ''salt'' ''dave'' [])))
        (snd (snd (register stub_bcrypt empty_store None ''u1'' 5 ''rk'' ''ek'' ''salt'' ''dave'' [])))
        ''dave'' []) = Inl ValidationError"
  by code_simp

text \<open>
  Claim C9. When some user already has the user name, compared exactly, registration
  fails with \<open>DuplicateUsername\<close> for every password and leaves the store, and the
  session, as they were.
\<close>

theorem register_duplicate_username:
  assumes "list_ex (\<lambda>u. user_username u = username) (map_values (users s))"
  shows "register bc s sess uuid now recoveryKey encryptionKey salt username password
         = (Inl DuplicateUsername, s, sess)"
proof -
  from assms have "getUserByUsername s username \<noteq> None"
    by (simp add: getUserByUsername_def array_find_None list_ex_iff)
  then show ?thesis
    by (auto simp: register_def)
qed

theorem register_duplicate_username_witness:
  "list_ex (\<lambda>u. user_username u = ''alice'') (map_values (users user_store))
   \<and> register stub_bcrypt user_store None ''u2'' 7 ''rk2'' ''ek2'' ''s3'' ''alice'' ''other''
       = (Inl DuplicateUsername, user_store, None)
   \<and> getUserByUsername user_store ''Alice'' = None"
proof -
  have h: "list_ex (\<lambda>u. user_username u = ''alice'') (map_values (users user_store))"
    by code_simp
  have e: "getUserByUsername user_store ''Alice'' = None" by code_simp
  from h e register_duplicate_username [OF h, of stub_bcrypt None "''u2''" 7 "''rk2''" "''ek2''"
      "''s3''" "''other''"]
  show ?thesis by blast
qed

subsection \<open>The folder selection "none"\<close>

text \<open>
  Claim C10. For a note that has a folder, the update route called with the folder
  selection \<^verbatim>\<open>"none"\<close> keeps the folder of the note: the selection is turned into an
  omitted field. The creation route called with the same selection stores a note with
  no folder.
\<close>

theorem none_sentinel_folder:
  assumes "truthy sess" and "map_option note_folderId (getNote s nid) = Some (Some f)"
  shows "(\<exists>n' s'. put_note s sess now nid (body\<lparr>un_folderId := Some (Some ''none'')\<rparr>)
                     = (Inr n', s')
            \<and> note_folderId n' = Some f \<and> getNote s' nid = Some n')
       \<and> (\<exists>m s''. post_note s sess uuid now' (ins\<lparr>in_folderId := Some (Some ''none'')\<rparr>)
                     = (Inr m, s'')
            \<and> note_folderId m = None \<and> getNote s'' uuid = Some m)"
  using assms
  by (auto simp: put_note_def post_note_def updateNote_def createNote_def getNote_def
      Let_def map_get_map_set)

theorem none_sentinel_folder_witness:
  "truthy (Some ''alice'')
   \<and> map_option note_folderId (getNote demo_store ''n1'') = Some (Some ''f1'')
   \<and> (\<exists>n' s'. put_note demo_store (Some ''alice'') 5000 ''n1''
                 (unfile\<lparr>un_folderId := Some (Some ''none'')\<rparr>) = (Inr n', s')
            \<and> note_folderId n' = Some ''f1'' \<and> getNote s' ''n1'' = Some n')
   \<and> (\<exists>m s''. post_note demo_store (Some ''alice'') ''n4'' 6000
                 (alice_note\<lparr>in_folderId := Some (Some ''none'')\<rparr>) = (Inr m, s'')
            \<and> note_folderId m = None \<and> getNote s'' ''n4'' = Some m)
   \<and> map_option note_folderId (getNote (snd (put_note demo_store (Some ''alice'') 5000 ''n1'' unfile)) ''n1'')
       = Some (Some ''f1'')"
proof -
  have h1: "truthy (Some ''alice'')" by code_simp
  have h2: "map_option note_folderId (getNote demo_store ''n1'') = Some (Some ''f1'')"
    by code_simp
  have e: "map_option note_folderId
      (getNote (snd (put_note demo_store (Some ''alice'') 5000 ''n1'' unfile)) ''n1'')
       = Some (Some ''f1'')"
    by code_simp
  from h1 h2 e none_sentinel_folder [OF h1 h2, of 5000 unfile "''n4''" 6000 alice_note]
  show ?thesis by blast
qed

end
